theory Spec2Isabelle
  imports Complex_Main "HOL-Library.Multiset"
begin

section \<open>Floating-point values\<close>

text \<open>
  The notebook computes on TensorFlow \<^verbatim>\<open>float32\<close> tensors. A tensor element is an IEEE 754
  binary32 value: \<open>Num r\<close> is the finite value \<open>r\<close>, \<open>PInf\<close> and \<open>NInf\<close> are the two infinities
  and \<open>NaN\<close> is not-a-number. The finite values are the reals \<open>m * 2\<^sup>e\<close> with
  \<open>\<bar>m\<bar> < 2\<^sup>2\<^sup>4\<close> and \<open>-149 \<le> e \<le> 104\<close>; the largest is \<^verbatim>\<open>tf.float32.max\<close>,
  \<open>(2\<^sup>2\<^sup>4 - 1) * 2\<^sup>1\<^sup>0\<^sup>4\<close>. Every arithmetic operation computes the real result and rounds it
  to the nearest binary32 value, ties to the even significand, with gradual underflow
  and overflow to infinity. The sign of zero is not modelled (\<open>-0\<close> and \<open>+0\<close> compare
  equal in the code).
\<close>

datatype float32 = Num real | PInf | NInf | NaN

definition float32_max :: real where
  "float32_max = 2 ^ 128 - 2 ^ 104"

text \<open>
  The exponent of the unit in the last place of \<open>x\<close>: the least \<open>e \<ge> -149\<close> with
  \<open>\<bar>x\<bar> < 2\<^sup>e\<^sup>+\<^sup>2\<^sup>4\<close>, searched upwards from the subnormal exponent; \<open>105\<close> when
  \<open>\<bar>x\<bar> \<ge> 2\<^sup>1\<^sup>2\<^sup>8\<close>.
\<close>

fun ulp_search :: "nat \<Rightarrow> int \<Rightarrow> real \<Rightarrow> int" where
  "ulp_search 0 e x = e"
| "ulp_search (Suc n) e x = (if \<bar>x\<bar> < 2 powi (e + 24) then e else ulp_search n (e + 1) x)"

definition ulp_exponent :: "real \<Rightarrow> int" where
  "ulp_exponent x = ulp_search 254 (- 149) x"

definition round_half_even :: "real \<Rightarrow> int" where
  "round_half_even q =
     (let f = \<lfloor>q\<rfloor>; d = q - of_int f
      in if d < 1 / 2 then f else if 1 / 2 < d then f + 1 else if even f then f else f + 1)"

text \<open>Rounding a real to binary32: to a multiple of the ulp, to infinity beyond the largest value.\<close>

definition round32 :: "real \<Rightarrow> float32" where
  "round32 x =
     (let e = ulp_exponent x; r = of_int (round_half_even (x / 2 powi e)) * 2 powi e
      in if float32_max < r then PInf else if r < - float32_max then NInf else Num r)"

text \<open>A real is a binary32 value when rounding leaves it as it is.\<close>

definition is_binary32 :: "real \<Rightarrow> bool" where
  "is_binary32 x = (round32 x = Num x)"

fun float32_value :: "float32 \<Rightarrow> bool" where
  "float32_value (Num r) = is_binary32 r"
| "float32_value _ = True"

fun fadd :: "float32 \<Rightarrow> float32 \<Rightarrow> float32" where
  "fadd NaN _ = NaN"
| "fadd _ NaN = NaN"
| "fadd PInf NInf = NaN"
| "fadd NInf PInf = NaN"
| "fadd PInf _ = PInf"
| "fadd _ PInf = PInf"
| "fadd NInf _ = NInf"
| "fadd _ NInf = NInf"
| "fadd (Num a) (Num b) = round32 (a + b)"

fun fmul :: "float32 \<Rightarrow> float32 \<Rightarrow> float32" where
  "fmul NaN _ = NaN"
| "fmul _ NaN = NaN"
| "fmul (Num a) (Num b) = round32 (a * b)"
| "fmul (Num a) PInf = (if a = 0 then NaN else if 0 < a then PInf else NInf)"
| "fmul (Num a) NInf = (if a = 0 then NaN else if 0 < a then NInf else PInf)"
| "fmul PInf (Num b) = (if b = 0 then NaN else if 0 < b then PInf else NInf)"
| "fmul NInf (Num b) = (if b = 0 then NaN else if 0 < b then NInf else PInf)"
| "fmul PInf PInf = PInf"
| "fmul PInf NInf = NInf"
| "fmul NInf PInf = NInf"
| "fmul NInf NInf = PInf"

fun fdiv :: "float32 \<Rightarrow> float32 \<Rightarrow> float32" where
  "fdiv NaN _ = NaN"
| "fdiv _ NaN = NaN"
| "fdiv (Num a) (Num b) =
     (if b \<noteq> 0 then round32 (a / b)
      else if a = 0 then NaN
      else if 0 < a then PInf else NInf)"
| "fdiv (Num a) PInf = Num 0"
| "fdiv (Num a) NInf = Num 0"
| "fdiv PInf (Num b) = (if 0 \<le> b then PInf else NInf)"
| "fdiv NInf (Num b) = (if 0 \<le> b then NInf else PInf)"
| "fdiv PInf PInf = NaN"
| "fdiv PInf NInf = NaN"
| "fdiv NInf PInf = NaN"
| "fdiv NInf NInf = NaN"

fun fsqrt :: "float32 \<Rightarrow> float32" where
  "fsqrt (Num a) = (if a < 0 then NaN else round32 (sqrt a))"
| "fsqrt PInf = PInf"
| "fsqrt NInf = NaN"
| "fsqrt NaN = NaN"

fun fminimum :: "float32 \<Rightarrow> float32 \<Rightarrow> float32" where
  "fminimum NaN _ = NaN"
| "fminimum _ NaN = NaN"
| "fminimum NInf _ = NInf"
| "fminimum _ NInf = NInf"
| "fminimum PInf y = y"
| "fminimum x PInf = x"
| "fminimum (Num a) (Num b) = Num (min a b)"

fun fmaximum :: "float32 \<Rightarrow> float32 \<Rightarrow> float32" where
  "fmaximum NaN _ = NaN"
| "fmaximum _ NaN = NaN"
| "fmaximum PInf _ = PInf"
| "fmaximum _ PInf = PInf"
| "fmaximum NInf y = y"
| "fmaximum x NInf = x"
| "fmaximum (Num a) (Num b) = Num (max a b)"

fun is_finite :: "float32 \<Rightarrow> bool" where
  "is_finite (Num _) = True"
| "is_finite _ = False"

text \<open>
  A reduction accumulates in float32, from zero, along the reduced axis in index order.
  TensorFlow leaves the order of accumulation to the kernel; the properties below that
  hold for every order say so.
\<close>

definition fsum :: "float32 list \<Rightarrow> float32" where
  "fsum xs = foldl fadd (Num 0) xs"

section \<open>Tensors\<close>

text \<open>
  A tensor carries its element type, its shape and its elements as nested lists
  (rank 2: a list of rows; rank 3: a list of rows of token vectors).
\<close>

datatype dtype = Float16 | Float32 | Float64 | Int32 | Int64

datatype tf_error = InvalidArgumentError

record 'a tensor =
  dtype :: dtype
  shape :: "nat list"
  vals :: 'a

type_synonym 'a tensor2 = "'a list list tensor"
type_synonym 'a tensor3 = "'a list list list tensor"

text \<open>
  The nested lists of a tensor agree with its shape, and every dimension fits the
  64-bit integer TensorFlow stores it in.
\<close>

definition well_shaped2 :: "'a tensor2 \<Rightarrow> bool" where
  "well_shaped2 t =
     (case shape t of
        [B, T] \<Rightarrow> B < 2 ^ 63 \<and> T < 2 ^ 63 \<and> length (vals t) = B \<and>
                  (\<forall>row \<in> set (vals t). length row = T)
      | _ \<Rightarrow> False)"

definition well_shaped3 :: "'a tensor3 \<Rightarrow> bool" where
  "well_shaped3 t =
     (case shape t of
        [B, T, H] \<Rightarrow> B < 2 ^ 63 \<and> T < 2 ^ 63 \<and> H < 2 ^ 63 \<and> length (vals t) = B \<and>
                     (\<forall>row \<in> set (vals t). length row = T \<and>
                        (\<forall>tok \<in> set row. length tok = H))
      | _ \<Rightarrow> False)"

subsection \<open>The TensorFlow operations the notebook calls\<close>

text \<open>\<^verbatim>\<open>tf.expand_dims(t, -1)\<close> on a rank-2 tensor: a new last axis of size 1.\<close>

definition expand_dims_last :: "'a tensor2 \<Rightarrow> 'a tensor3" where
  "expand_dims_last t =
     \<lparr>dtype = dtype t, shape = shape t @ [1], vals = map (map (\<lambda>x. [x])) (vals t)\<rparr>"

text \<open>
  \<^verbatim>\<open>tf.broadcast_to(t, target)\<close> for rank 3: every axis of \<open>t\<close> has the target's size or
  size 1, and an axis of size 1 is repeated; any other shape raises.
\<close>

fun broadcast_axis :: "nat \<Rightarrow> 'a list \<Rightarrow> 'a list" where
  "broadcast_axis n [x] = replicate n x"
| "broadcast_axis n xs = xs"

definition broadcast_to :: "'a tensor3 \<Rightarrow> nat list \<Rightarrow> tf_error + 'a tensor3" where
  "broadcast_to t target =
     (case (shape t, target) of
        ([b, s, h], [B, T, H]) \<Rightarrow>
          if (b = B \<or> b = 1) \<and> (s = T \<or> s = 1) \<and> (h = H \<or> h = 1)
          then Inr \<lparr>dtype = dtype t, shape = target,
                    vals = broadcast_axis B
                      (map (\<lambda>row. broadcast_axis T (map (broadcast_axis H) row)) (vals t))\<rparr>
          else Inl InvalidArgumentError
      | _ \<Rightarrow> Inl InvalidArgumentError)"

text \<open>
  \<^verbatim>\<open>tf.cast(t, d)\<close> of an integer tensor to a floating-point type \<open>d\<close>. The elements are
  rounded as for \<^verbatim>\<open>float32\<close>, the only target the notebook uses.
\<close>

definition cast :: "int tensor3 \<Rightarrow> dtype \<Rightarrow> float32 tensor3" where
  "cast t d =
     \<lparr>dtype = d, shape = shape t, vals = map (map (map (\<lambda>i. round32 (of_int i)))) (vals t)\<rparr>"

text \<open>
  The operator \<^verbatim>\<open>*\<close> on two tensors. TensorFlow does not promote element types: operands
  of different types raise. Both operands of the notebook's product have the same shape
  (the second was broadcast to the shape of the first), so the product is elementwise.
\<close>

definition multiply :: "float32 tensor3 \<Rightarrow> float32 tensor3 \<Rightarrow> tf_error + float32 tensor3" where
  "multiply x y =
     (if dtype x \<noteq> dtype y then Inl InvalidArgumentError
      else Inr \<lparr>dtype = dtype x, shape = shape x,
                vals = map2 (map2 (map2 fmul)) (vals x) (vals y)\<rparr>)"

text \<open>\<^verbatim>\<open>tf.math.reduce_sum(t, axis=1)\<close>: shape \<open>(B, T, H)\<close> to \<open>(B, H)\<close>.\<close>

definition reduce_sum_axis1 :: "float32 tensor3 \<Rightarrow> float32 tensor2" where
  "reduce_sum_axis1 t =
     \<lparr>dtype = dtype t, shape = [shape t ! 0, shape t ! 2],
      vals = map (\<lambda>row. map (\<lambda>h. fsum (map (\<lambda>tok. tok ! h) row)) [0..<shape t ! 2])
               (vals t)\<rparr>"

text \<open>
  \<^verbatim>\<open>tf.clip_by_value(t, lo, hi)\<close> is \<^verbatim>\<open>maximum(minimum(t, hi), lo)\<close>, elementwise; the two
  Python numbers are converted to the tensor's type, that is rounded.
\<close>

definition clip_by_value :: "float32 tensor2 \<Rightarrow> real \<Rightarrow> real \<Rightarrow> float32 tensor2" where
  "clip_by_value t lo hi =
     \<lparr>dtype = dtype t, shape = shape t,
      vals = map (map (\<lambda>x. fmaximum (fminimum x (round32 hi)) (round32 lo))) (vals t)\<rparr>"

text \<open>The operator \<^verbatim>\<open>/\<close> on two tensors of the same shape; different element types raise.\<close>

definition truediv :: "float32 tensor2 \<Rightarrow> float32 tensor2 \<Rightarrow> tf_error + float32 tensor2" where
  "truediv x y =
     (if dtype x \<noteq> dtype y then Inl InvalidArgumentError
      else Inr \<lparr>dtype = dtype x, shape = shape x,
                vals = map2 (map2 fdiv) (vals x) (vals y)\<rparr>)"

text \<open>
  \<^verbatim>\<open>tf.norm(t, 2, axis=1, keepdims=True)\<close> is
  \<^verbatim>\<open>sqrt(reduce_sum(t * conj(t), axis=1, keepdims=True))\<close>: shape \<open>(B, H)\<close> to \<open>(B, 1)\<close>.
\<close>

definition l2_norm :: "float32 list \<Rightarrow> float32" where
  "l2_norm row = fsqrt (fsum (map (\<lambda>x. fmul x x) row))"

definition tf_norm :: "float32 tensor2 \<Rightarrow> float32 tensor2" where
  "tf_norm t =
     \<lparr>dtype = dtype t, shape = [shape t ! 0, 1], vals = map (\<lambda>row. [l2_norm row]) (vals t)\<rparr>"

text \<open>
  \<^verbatim>\<open>tf.linalg.normalize(t, 2, axis=1)\<close> returns \<^verbatim>\<open>(t / norm, norm)\<close>: each row is divided by
  its own norm (the norm's axis of size 1 is broadcast along the row), with no floor
  under the divisor.
\<close>

definition linalg_normalize :: "float32 tensor2 \<Rightarrow> float32 tensor2 \<times> float32 tensor2" where
  "linalg_normalize t =
     (let nrm = tf_norm t
      in (\<lparr>dtype = dtype t, shape = shape t,
           vals = map2 (\<lambda>row n. map2 fdiv row (broadcast_axis (length row) n))
                    (vals t) (vals nrm)\<rparr>,
          nrm))"

section \<open>TFSentenceTransformer\<close>

text \<open>
  The tokenizer's output (\<^verbatim>\<open>inputs\<close>) and the transformer's output. \<^verbatim>\<open>model_output[0]\<close>
  is the tensor of token embeddings, of shape \<open>(B, T, H)\<close>.
\<close>

record encoded_input =
  input_ids :: "int tensor2"
  attention_mask :: "int tensor2"

record model_output =
  last_hidden_state :: "float32 tensor3"

text \<open>
  The local \<^verbatim>\<open>input_mask_expanded\<close> of \<^verbatim>\<open>mean_pooling\<close>:
  \<^verbatim>\<open>tf.cast(tf.broadcast_to(tf.expand_dims(attention_mask, -1), tf.shape(token_embeddings)), tf.float32)\<close>.
\<close>

definition input_mask_expanded :: "float32 tensor3 \<Rightarrow> int tensor2 \<Rightarrow> tf_error + float32 tensor3" where
  "input_mask_expanded token_embeddings attn_mask =
     (case broadcast_to (expand_dims_last attn_mask) (shape token_embeddings) of
        Inl e \<Rightarrow> Inl e
      | Inr m \<Rightarrow> Inr (cast m Float32))"

text \<open>
  \<^verbatim>\<open>mean_pooling\<close>. The clamp bounds are the Python numbers \<^verbatim>\<open>1e-9\<close> and \<^verbatim>\<open>tf.float32.max\<close>.
  Python evaluates the numerator first, so an error of the product is the error of the
  whole expression.
\<close>

definition mean_pooling :: "model_output \<Rightarrow> int tensor2 \<Rightarrow> tf_error + float32 tensor2" where
  "mean_pooling output attn_mask =
     (let token_embeddings = last_hidden_state output
      in case input_mask_expanded token_embeddings attn_mask of
           Inl e \<Rightarrow> Inl e
         | Inr ime \<Rightarrow>
             (case multiply token_embeddings ime of
                Inl e \<Rightarrow> Inl e
              | Inr masked \<Rightarrow>
                  truediv (reduce_sum_axis1 masked)
                    (clip_by_value (reduce_sum_axis1 ime) (1 / 10 ^ 9) float32_max)))"

text \<open>\<^verbatim>\<open>normalize\<close>: the first component of \<^verbatim>\<open>tf.linalg.normalize(embeddings, 2, axis=1)\<close>.\<close>

definition normalize_emb :: "float32 tensor2 \<Rightarrow> float32 tensor2" where
  "normalize_emb embeddings = fst (linalg_normalize embeddings)"

text \<open>
  \<^verbatim>\<open>call\<close>: the transformer \<^verbatim>\<open>self.model\<close> is a parameter; it may raise, and what it raises
  propagates.
\<close>

definition call ::
  "(encoded_input \<Rightarrow> tf_error + model_output) \<Rightarrow> encoded_input \<Rightarrow> bool \<Rightarrow> tf_error + float32 tensor2"
where
  "call model inputs normalize_flag =
     (case model inputs of
        Inl e \<Rightarrow> Inl e
      | Inr output \<Rightarrow>
          (case mean_pooling output (attention_mask inputs) of
             Inl e \<Rightarrow> Inl e
           | Inr embeddings \<Rightarrow>
               Inr (if normalize_flag then normalize_emb embeddings else embeddings)))"

section \<open>Specification-level notions\<close>

text \<open>
  The row-wise form of \<^verbatim>\<open>mean_pooling\<close>: for one sequence with token vectors \<open>toks\<close> and mask
  row \<open>ms\<close>, component \<open>h\<close> of the pooled row is the masked sum divided by the clamped
  mask sum. It is proved equal to the tensor computation in \<open>mean_pooling_rows\<close>.
\<close>

definition pool_row :: "nat \<Rightarrow> float32 list list \<Rightarrow> int list \<Rightarrow> float32 list" where
  "pool_row H toks ms =
     map (\<lambda>h. fdiv (fsum (map2 (\<lambda>tok m. fmul (tok ! h) (round32 (of_int m))) toks ms))
                  (fmaximum (fminimum (fsum (map (\<lambda>m. round32 (of_int m)) ms)) (round32 float32_max))
                     (round32 (1 / 10 ^ 9))))
       [0..<H]"

text \<open>The token vectors of a sequence at the positions where the mask is one.\<close>

definition unmasked :: "'a list \<Rightarrow> int list \<Rightarrow> 'a list" where
  "unmasked toks ms = map fst (filter (\<lambda>p. snd p = 1) (zip toks ms))"

text \<open>
  The mean of a list of vectors of length \<open>H\<close> computed in float32: the components are
  summed in float32, in list order, and the sum is divided by the number of vectors.
\<close>

definition float32_mean :: "nat \<Rightarrow> float32 list list \<Rightarrow> float32 list" where
  "float32_mean H vs =
     map (\<lambda>h. fdiv (fsum (map (\<lambda>v. v ! h) vs)) (round32 (real (length vs)))) [0..<H]"

text \<open>
  The arithmetic mean, over the reals, of a list of vectors of length \<open>H\<close>: their sum divided
  by their number.
\<close>

definition arithmetic_mean :: "nat \<Rightarrow> real list list \<Rightarrow> real list" where
  "arithmetic_mean H vs = map (\<lambda>h. sum_list (map (\<lambda>v. v ! h) vs) / real (length vs)) [0..<H]"


section \<open>Rounding to binary32\<close>

lemma ulp_search_range: "e \<le> ulp_search n e x \<and> ulp_search n e x \<le> e + int n"
proof (induction n arbitrary: e)
  case 0
  then show ?case by simp
next
  case (Suc n)
  from Suc[of "e + 1"] show ?case by auto
qed

lemma ulp_search_upper:
  "ulp_search n e x < e + int n \<Longrightarrow> \<bar>x\<bar> < 2 powi (ulp_search n e x + 24)"
proof (induction n arbitrary: e)
  case 0
  then show ?case by simp
next
  case (Suc n)
  show ?case
  proof (cases "\<bar>x\<bar> < 2 powi (e + 24)")
    case True
    then show ?thesis by simp
  next
    case False
    then show ?thesis
      using Suc.IH[of "e + 1"] Suc.prems by simp
  qed
qed

lemma ulp_search_lower:
  "e < ulp_search n e x \<Longrightarrow> 2 powi (ulp_search n e x + 23) \<le> \<bar>x\<bar>"
proof (induction n arbitrary: e)
  case 0
  then show ?case by simp
next
  case (Suc n)
  show ?case
  proof (cases "\<bar>x\<bar> < 2 powi (e + 24)")
    case True
    then show ?thesis using Suc.prems by simp
  next
    case False
    then have s: "ulp_search (Suc n) e x = ulp_search n (e + 1) x" by simp
    show ?thesis
    proof (cases "e + 1 < ulp_search n (e + 1) x")
      case True
      then show ?thesis using Suc.IH[of "e + 1"] s by simp
    next
      case False
      then have "ulp_search n (e + 1) x = e + 1"
        using ulp_search_range[of "e + 1" n x] by simp
      then show ?thesis
        using s \<open>\<not> \<bar>x\<bar> < 2 powi (e + 24)\<close> by (simp add: algebra_simps)
    qed
  qed
qed

lemma ulp_exponent_range: "- 149 \<le> ulp_exponent x" "ulp_exponent x \<le> 105"
  using ulp_search_range[of "- 149" 254 x] by (simp_all add: ulp_exponent_def)

lemma ulp_exponent_upper: "ulp_exponent x \<le> 104 \<Longrightarrow> \<bar>x\<bar> < 2 powi (ulp_exponent x + 24)"
  using ulp_search_upper[of 254 "- 149" x] by (simp add: ulp_exponent_def)

lemma ulp_exponent_lower: "- 149 < ulp_exponent x \<Longrightarrow> 2 powi (ulp_exponent x + 23) \<le> \<bar>x\<bar>"
  using ulp_search_lower[of "- 149" 254 x] by (simp add: ulp_exponent_def)

lemma pow2_mono: "a \<le> b \<Longrightarrow> (2 :: real) powi a \<le> 2 powi b"
  by (rule power_int_increasing) simp_all

lemma pow2_strict_mono: "a < b \<Longrightarrow> (2 :: real) powi a < 2 powi b"
  by (rule power_int_strict_increasing) simp_all

lemma pow2_pos: "0 < (2 :: real) powi a"
  by (simp add: zero_less_power_int)

text \<open>The ulp exponent is the only exponent in range that brackets \<open>x\<close>.\<close>

lemma ulp_exponent_eq:
  assumes "- 149 \<le> e" "e \<le> 105"
    and "e \<le> 104 \<Longrightarrow> \<bar>x\<bar> < 2 powi (e + 24)"
    and "- 149 < e \<Longrightarrow> 2 powi (e + 23) \<le> \<bar>x\<bar>"
  shows "ulp_exponent x = e"
proof (rule antisym)
  show "ulp_exponent x \<le> e"
  proof (rule ccontr)
    assume "\<not> ulp_exponent x \<le> e"
    then have lt: "e < ulp_exponent x" by simp
    then have "2 powi (ulp_exponent x + 23) \<le> \<bar>x\<bar>"
      using assms(1) by (intro ulp_exponent_lower) simp
    moreover have "\<bar>x\<bar> < 2 powi (e + 24)"
      using assms(3) lt ulp_exponent_range(2)[of x] by simp
    moreover have "(2 :: real) powi (e + 24) \<le> 2 powi (ulp_exponent x + 23)"
      using lt by (intro pow2_mono) simp
    ultimately show False by simp
  qed
  show "e \<le> ulp_exponent x"
  proof (rule ccontr)
    assume "\<not> e \<le> ulp_exponent x"
    then have lt: "ulp_exponent x < e" by simp
    then have "\<bar>x\<bar> < 2 powi (ulp_exponent x + 24)"
      using assms(2) by (intro ulp_exponent_upper) simp
    moreover have "2 powi (e + 23) \<le> \<bar>x\<bar>"
      using assms(4) lt ulp_exponent_range(1)[of x] by simp
    moreover have "(2 :: real) powi (ulp_exponent x + 24) \<le> 2 powi (e + 23)"
      using lt by (intro pow2_mono) simp
    ultimately show False by simp
  qed
qed

lemma round_half_even_int: "round_half_even (of_int n) = n"
  by (simp add: round_half_even_def)

lemma round_half_even_cases:
  "round_half_even q = \<lfloor>q\<rfloor> \<or> round_half_even q = \<lfloor>q\<rfloor> + 1"
  by (simp add: round_half_even_def Let_def)

lemma round_half_even_bound:
  assumes "\<bar>q\<bar> < of_int N"
  shows "\<bar>round_half_even q\<bar> \<le> N"
proof -
  have "q < of_int N" "- of_int N < q"
    using assms by auto
  then have "\<lfloor>q\<rfloor> < N" "- N \<le> \<lfloor>q\<rfloor>"
    by (simp_all add: floor_less_iff le_floor_iff)
  then show ?thesis
    using round_half_even_cases[of q] by auto
qed

lemma round_half_even_le:
  assumes "q \<le> of_int N"
  shows "round_half_even q \<le> N"
proof (cases "q = of_int N")
  case True
  then show ?thesis by (simp add: round_half_even_int)
next
  case False
  then have "q < of_int N" using assms by simp
  then have "\<lfloor>q\<rfloor> < N" by (simp add: floor_less_iff)
  then show ?thesis using round_half_even_cases[of q] by auto
qed

lemma round_half_even_ge:
  assumes "of_int N \<le> q"
  shows "N \<le> round_half_even q"
proof -
  have "N \<le> \<lfloor>q\<rfloor>" using assms by (simp add: le_floor_iff)
  then show ?thesis using round_half_even_cases[of q] by auto
qed

lemma float32_max_less: "float32_max < 2 powi 128"
  by (simp add: float32_max_def)

lemma round32_eval:
  assumes "- 149 \<le> e" "e \<le> 104" "\<bar>x\<bar> < 2 powi (e + 24)"
    and "- 149 < e \<Longrightarrow> 2 powi (e + 23) \<le> \<bar>x\<bar>"
  shows "round32 x =
     (let r = of_int (round_half_even (x / 2 powi e)) * 2 powi e
      in if float32_max < r then PInf else if r < - float32_max then NInf else Num r)"
proof -
  have "ulp_exponent x = e"
    using assms by (intro ulp_exponent_eq) simp_all
  then show ?thesis
    by (simp add: round32_def)
qed

lemma round32_exact:
  assumes x: "x = of_int m * 2 powi k" and m: "\<bar>m\<bar> \<le> 2 ^ 24" and k: "- 149 \<le> k"
    and b: "\<bar>x\<bar> \<le> float32_max"
  shows "round32 x = Num x"
proof -
  define e where "e = ulp_exponent x"
  have e104: "e \<le> 104"
  proof (rule ccontr)
    assume "\<not> e \<le> 104"
    then have "e = 105"
      using ulp_exponent_range(2)[of x] by (simp add: e_def)
    then have "2 powi 128 \<le> \<bar>x\<bar>"
      using ulp_exponent_lower[of x] by (simp add: e_def)
    then show False
      using b float32_max_less by simp
  qed
  have absx: "\<bar>x\<bar> = of_int \<bar>m\<bar> * 2 powi k"
    by (simp add: x abs_mult pow2_pos less_imp_le)
  have "\<exists>n. x / 2 powi e = of_int n"
  proof (cases "e \<le> k")
    case True
    have "(2 :: real) powi k = 2 powi (k - e) * 2 powi e"
      by (simp add: power_int_add[symmetric])
    then have "x / 2 powi e = of_int m * 2 powi (k - e)"
      using pow2_pos[of e] by (simp add: x)
    also have "\<dots> = of_int (m * 2 ^ nat (k - e))"
      using True by (simp add: power_int_def)
    finally show ?thesis by blast
  next
    case False
    then have lt: "k < e" by simp
    then have "- 149 < e" using k by simp
    then have low: "2 powi (e + 23) \<le> \<bar>x\<bar>"
      using ulp_exponent_lower[of x] by (simp add: e_def)
    have "\<bar>x\<bar> \<le> 2 ^ 24 * 2 powi k"
      using m pow2_pos[of k] by (simp add: absx mult_right_mono)
    also have "\<dots> = 2 powi (k + 24)"
      by (simp add: power_int_add)
    finally have up: "\<bar>x\<bar> \<le> 2 powi (k + 24)" .
    have "e + 23 \<le> k + 24"
    proof (rule ccontr)
      assume "\<not> e + 23 \<le> k + 24"
      then have "(2 :: real) powi (k + 24) < 2 powi (e + 23)"
        by (intro pow2_strict_mono) simp
      then show False using low up by simp
    qed
    then have ek: "e = k + 1" using lt by simp
    then have "2 powi (k + 24) \<le> \<bar>x\<bar>"
      using low by (simp add: algebra_simps)
    then have "\<bar>x\<bar> = 2 powi (k + 24)"
      using up by simp
    then have "of_int \<bar>m\<bar> * 2 powi k = (2 ^ 24 :: real) * 2 powi k"
      by (simp add: absx power_int_add)
    then have "(of_int \<bar>m\<bar> :: real) = 2 ^ 24"
      using pow2_pos[of k] by simp
    then have "\<bar>m\<bar> = 2 ^ 24"
      by (metis of_int_eq_iff of_int_numeral of_int_power)
    then have "m = 2 * 2 ^ 23 \<or> m = 2 * (- (2 ^ 23))"
      by (simp add: abs_if split: if_splits)
    then obtain h where h: "m = 2 * h" by blast
    have "(2 :: real) powi e = 2 * 2 powi k"
      by (simp add: ek power_int_add)
    then have "x / 2 powi e = of_int h"
      using pow2_pos[of k] by (simp add: x h)
    then show ?thesis by blast
  qed
  then obtain n where n: "x / 2 powi e = of_int n" by blast
  then have "of_int (round_half_even (x / 2 powi e)) * 2 powi e = x"
    using pow2_pos[of e] by (simp add: round_half_even_int field_simps)
  moreover have "\<not> float32_max < x" "\<not> x < - float32_max"
    using b by auto
  ultimately show ?thesis
    by (simp add: round32_def e_def[symmetric] Let_def)
qed

lemma round32_idem:
  assumes "round32 x = Num r"
  shows "round32 r = Num r"
proof -
  define e where "e = ulp_exponent x"
  define n where "n = round_half_even (x / 2 powi e)"
  have r: "r = of_int n * 2 powi e" and b: "\<bar>r\<bar> \<le> float32_max"
    using assms by (auto simp: round32_def e_def n_def Let_def split: if_splits)
  have "e \<le> 104"
  proof (rule ccontr)
    assume "\<not> e \<le> 104"
    then have e: "e = 105"
      using ulp_exponent_range(2)[of x] by (simp add: e_def)
    then have low: "2 powi 128 \<le> \<bar>x\<bar>"
      using ulp_exponent_lower[of x] by (simp add: e_def)
    have "(2 :: real) powi 128 = 2 ^ 23 * 2 powi 105"
      by simp
    then have "2 ^ 23 \<le> \<bar>x\<bar> / 2 powi 105"
      using low by (simp add: field_simps)
    then have q: "(2 ^ 23 :: real) \<le> \<bar>x / 2 powi 105\<bar>"
      by simp
    have "2 ^ 23 \<le> \<bar>n\<bar>"
    proof (cases "0 \<le> x")
      case True
      then have "of_int (2 ^ 23) \<le> x / 2 powi 105"
        using q by simp
      from round_half_even_ge[OF this] show ?thesis
        by (simp add: n_def e)
    next
      case False
      then have "x / 2 powi 105 \<le> - (2 ^ 23)"
        using q by (simp add: abs_if field_simps split: if_splits)
      then have "x / 2 powi 105 \<le> of_int (- (2 ^ 23))"
        by simp
      from round_half_even_le[OF this] show ?thesis
        by (simp add: n_def e)
    qed
    then have "(2 ^ 23 :: real) \<le> of_int \<bar>n\<bar>"
      by (metis of_int_le_iff of_int_numeral of_int_power)
    then have "2 ^ 23 * 2 powi 105 \<le> \<bar>r\<bar>"
      using pow2_pos[of 105] by (simp add: r e abs_mult mult_right_mono less_imp_le)
    then show False
      using b float32_max_less by simp
  qed
  then have "\<bar>x\<bar> < 2 powi (e + 24)"
    using ulp_exponent_upper[of x] by (simp add: e_def)
  also have "\<dots> = 2 ^ 24 * 2 powi e"
    by (simp add: power_int_add)
  finally have "\<bar>x / 2 powi e\<bar> < of_int (2 ^ 24)"
    using pow2_pos[of e] by (simp add: field_simps)
  then have "\<bar>n\<bar> \<le> 2 ^ 24"
    unfolding n_def by (rule round_half_even_bound)
  moreover have "- 149 \<le> e"
    using ulp_exponent_range(1)[of x] by (simp add: e_def)
  ultimately show ?thesis
    using r b by (intro round32_exact[of r n e]) simp_all
qed

lemma round32_of_int:
  assumes "\<bar>n\<bar> \<le> 2 ^ 24"
  shows "round32 (of_int n) = Num (of_int n)"
proof (rule round32_exact[of _ n 0])
  have "\<bar>of_int n :: real\<bar> \<le> 2 ^ 24"
    using assms by (metis of_int_abs of_int_le_iff of_int_numeral of_int_power)
  then show "\<bar>of_int n :: real\<bar> \<le> float32_max"
    by (simp add: float32_max_def)
qed (use assms in simp_all)

lemma round32_0: "round32 0 = Num 0"
  using round32_of_int[of 0] by simp

lemma round32_1: "round32 1 = Num 1"
  using round32_of_int[of 1] by simp

lemma round32_overflow:
  assumes "2 ^ 128 \<le> x"
  shows "round32 x = PInf"
proof -
  have x: "2 powi 128 \<le> \<bar>x\<bar>"
    using assms by simp
  have e: "ulp_exponent x = 105"
    using x by (intro ulp_exponent_eq) simp_all
  have "(2 :: real) ^ 128 = 2 ^ 23 * 2 powi 105"
    by simp
  then have "of_int (2 ^ 23) \<le> x / 2 powi 105"
    using assms by (simp add: field_simps)
  from round_half_even_ge[OF this]
  have "(2 ^ 23 :: real) \<le> of_int (round_half_even (x / 2 powi 105))"
    by (metis of_int_le_iff of_int_numeral of_int_power)
  then have "2 ^ 23 * 2 powi 105 \<le> real_of_int (round_half_even (x / 2 powi 105)) * 2 powi 105"
    by (intro mult_right_mono) simp_all
  then have "float32_max < of_int (round_half_even (x / 2 powi 105)) * 2 powi 105"
    by (simp add: float32_max_def)
  then show ?thesis
    by (simp add: round32_def e Let_def)
qed

subsection \<open>Values and constants\<close>

lemma round32_nat:
  assumes "n \<le> 2 ^ 24"
  shows "round32 (real n) = Num (real n)"
proof -
  have "\<bar>int n\<bar> \<le> 2 ^ 24"
    using assms by (metis abs_of_nat of_nat_le_iff of_nat_numeral of_nat_power)
  from round32_of_int[OF this] show ?thesis by simp
qed

lemma round32_numeral:
  assumes "(numeral n :: real) \<le> 2 ^ 24"
  shows "round32 (numeral n) = Num (numeral n)"
proof -
  have "real_of_int (numeral n) \<le> real_of_int (2 ^ 24)"
    using assms by simp
  then have "(numeral n :: int) \<le> 2 ^ 24"
    by (simp only: of_int_le_iff)
  then have "\<bar>numeral n :: int\<bar> \<le> 2 ^ 24"
    by simp
  from round32_of_int[OF this] show ?thesis by simp
qed

lemma round32_float32_max: "round32 float32_max = Num float32_max"
proof (rule round32_exact[of _ "2 ^ 24 - 1" 104])
  show "float32_max = of_int (2 ^ 24 - 1) * 2 powi 104"
    by (simp add: float32_max_def)
qed (simp_all add: float32_max_def)

lemma round32_floor_constant: "round32 (1 / 10 ^ 9) = Num (9007199 / 2 ^ 53)"
proof -
  have "round32 (1 / 10 ^ 9) =
     (let r = of_int (round_half_even ((1 / 10 ^ 9) / 2 powi (- 53))) * 2 powi (- 53)
      in if float32_max < r then PInf else if r < - float32_max then NInf else Num r)"
    by (rule round32_eval) (simp_all add: power_int_minus field_simps)
  moreover have "round_half_even ((1 / 10 ^ 9) / 2 powi (- 53)) = 9007199"
    by (simp add: round_half_even_def Let_def power_int_minus field_simps)
  ultimately show ?thesis
    by (simp add: Let_def float32_max_def power_int_minus field_simps)
qed

lemma round32_float32_max_eval:
  "round32 340282346638528859811704183484516925440 = Num 340282346638528859811704183484516925440"
  using round32_float32_max by (simp add: float32_max_def)

lemma round32_floor_constant_eval:
  "round32 (1 / 1000000000) = Num (9007199 / 9007199254740992)"
  using round32_floor_constant by simp

lemma round32_dyadic:
  assumes "\<bar>m\<bar> \<le> 2 ^ 24" "k \<le> 149"
  shows "round32 (of_int m / 2 ^ k) = Num (of_int m / 2 ^ k)"
proof (rule round32_exact[of _ m "- int k"])
  show "(of_int m / 2 ^ k :: real) = of_int m * 2 powi (- int k)"
    by (simp add: power_int_minus field_simps)
  have "\<bar>of_int m / 2 ^ k :: real\<bar> \<le> \<bar>of_int m\<bar>"
    by (simp add: abs_divide field_simps mult_le_cancel_left1)
  also have "\<dots> \<le> 2 ^ 24"
    using assms(1) by (metis of_int_abs of_int_le_iff of_int_numeral of_int_power)
  finally show "\<bar>of_int m / 2 ^ k :: real\<bar> \<le> float32_max"
    by (simp add: float32_max_def)
qed (use assms in simp_all)

lemma float32_value_round32: "float32_value (round32 x)"
proof (cases "round32 x")
  case (Num r)
  then show ?thesis
    using round32_idem[of x r] by (simp add: is_binary32_def)
qed simp_all

lemma float32_value_fadd: "float32_value (fadd x y)"
  by (cases x; cases y) (simp_all add: float32_value_round32)



lemma fadd_zero_left: "float32_value v \<Longrightarrow> fadd (Num 0) v = v"
  by (cases v) (simp_all add: is_binary32_def)

lemma fmul_one: "float32_value v \<Longrightarrow> fmul v (Num 1) = v"
  by (cases v) (simp_all add: is_binary32_def)

lemma fmul_zero: "fmul (Num r) (Num 0) = Num 0"
  by (simp add: round32_0)

lemma fdiv_one: "float32_value v \<Longrightarrow> fdiv v (Num 1) = v"
  by (cases v) (simp_all add: is_binary32_def)

lemma cast_zero_one [simp]: "round32 (of_int 0) = Num 0" "round32 (of_int 1) = Num 1"
  by (simp_all add: round32_0 round32_1)

subsection \<open>Sums\<close>

lemma fsum_Nil [simp]: "fsum [] = Num 0"
  by (simp add: fsum_def)

lemma fsum_single: "float32_value v \<Longrightarrow> fsum [v] = v"
  by (simp add: fsum_def fadd_zero_left)


lemma foldl_fadd_zeros:
  "\<forall>x \<in> set xs. x = Num 0 \<Longrightarrow> foldl fadd (Num 0) xs = Num 0"
  by (induction xs) (simp_all add: round32_0)

lemma fsum_zeros: "\<forall>x \<in> set xs. x = Num 0 \<Longrightarrow> fsum xs = Num 0"
  by (simp add: fsum_def foldl_fadd_zeros)

text \<open>
  Counting in float32: a sum of zeros and ones is exact as long as it stays below
  \<open>2\<^sup>2\<^sup>4\<close>, in whatever order it is accumulated, since every partial sum is a natural
  number below that bound.
\<close>

lemma foldl_fadd_count:
  assumes "set ms \<subseteq> {0, 1}" "a + length ms \<le> 2 ^ 24"
  shows "foldl fadd (Num (real a)) (map (\<lambda>m. round32 (of_int m)) ms)
         = Num (real (a + count_list ms 1))"
  using assms
proof (induction ms arbitrary: a)
  case Nil
  then show ?case by simp
next
  case (Cons m ms)
  from Cons.prems have m: "m = 0 \<or> m = 1" by simp
  have a: "a \<le> 2 ^ 24" "Suc a \<le> 2 ^ 24" "Suc a + length ms \<le> 2 ^ 24" "a + length ms \<le> 2 ^ 24"
    using Cons.prems(2) by simp_all
  have sub: "set ms \<subseteq> {0, 1}" using Cons.prems(1) by simp
  from m show ?case
  proof
    assume m0: "m = 0"
    have "fadd (Num (real a)) (Num 0) = Num (real a)"
      using round32_nat[OF a(1)] by simp
    then show ?thesis
      using Cons.IH[OF sub a(4)] m0 by (simp add: round32_0)
  next
    assume m1: "m = 1"
    have "fadd (Num (real a)) (Num 1) = Num (real (Suc a))"
      using round32_nat[OF a(2)] by (simp add: add.commute)
    then show ?thesis
      using Cons.IH[OF sub a(3)] m1 by (simp add: round32_1)
  qed
qed

lemma mask_sum_count:
  assumes "set ms \<subseteq> {0, 1}" "length ms \<le> 2 ^ 24"
  shows "fsum (map (\<lambda>m. round32 (of_int m)) ms) = Num (real (count_list ms 1))"
  using foldl_fadd_count[of ms 0] assms by (simp add: fsum_def)

lemma foldl_fadd_finite:
  "foldl fadd a xs = Num r \<Longrightarrow> is_finite a \<and> (\<forall>x \<in> set xs. is_finite x)"
proof (induction xs arbitrary: a)
  case Nil
  then show ?case by simp
next
  case (Cons x xs)
  then have "is_finite (fadd a x)" "\<forall>y \<in> set xs. is_finite y"
    by auto
  moreover from this(1) have "is_finite a \<and> is_finite x"
    by (cases a; cases x) simp_all
  ultimately show ?case by simp
qed

lemma fsum_finite: "fsum xs = Num r \<Longrightarrow> \<forall>x \<in> set xs. is_finite x"
  using foldl_fadd_finite[of "Num 0" xs r] by (simp add: fsum_def)

section \<open>The tensor computation, row by row\<close>

lemma broadcast_axis_same: "length xs = n \<Longrightarrow> broadcast_axis n xs = xs"
  by (induction n xs rule: broadcast_axis.induct) auto

lemma masked_column:
  assumes "length toks = length ms" "\<forall>tok \<in> set toks. length tok = H" "h < H"
  shows "map (\<lambda>tok. tok ! h) (map2 (map2 fmul) toks (map (\<lambda>m. replicate H (c m)) ms))
         = map2 (\<lambda>tok m. fmul (tok ! h) (c m)) toks ms"
  using assms by (induction toks ms rule: list_induct2) auto

lemma mask_column:
  assumes "h < H"
  shows "map (\<lambda>tok. tok ! h) (map (\<lambda>m. replicate H (c m)) ms) = map c ms"
  using assms by (induction ms) auto

lemma pool_row_eq:
  assumes "length toks = length ms" "\<forall>tok \<in> set toks. length tok = H"
  shows "map2 fdiv
           (map (\<lambda>h. fsum (map (\<lambda>tok. tok ! h)
                   (map2 (map2 fmul) toks (map (\<lambda>m. replicate H (round32 (of_int m))) ms)))) [0..<H])
           (map (\<lambda>x. fmaximum (fminimum x (round32 float32_max)) (round32 (1 / 10 ^ 9)))
              (map (\<lambda>h. fsum (map (\<lambda>tok. tok ! h)
                   (map (\<lambda>m. replicate H (round32 (of_int m))) ms))) [0..<H]))
         = pool_row H toks ms"
proof -
  have 1: "map (\<lambda>h. fsum (map (\<lambda>tok. tok ! h)
                   (map2 (map2 fmul) toks (map (\<lambda>m. replicate H (round32 (of_int m))) ms)))) [0..<H]
         = map (\<lambda>h. fsum (map2 (\<lambda>tok m. fmul (tok ! h) (round32 (of_int m))) toks ms)) [0..<H]"
    using masked_column[OF assms, where c = "\<lambda>m. round32 (of_int m)"] by (intro map_cong) auto
  have 2: "map (\<lambda>h. fsum (map (\<lambda>tok. tok ! h)
                   (map (\<lambda>m. replicate H (round32 (of_int m))) ms))) [0..<H]
         = map (\<lambda>h. fsum (map (\<lambda>m. round32 (of_int m)) ms)) [0..<H]"
    by (intro map_cong) (auto simp: comp_def)
  show ?thesis
    unfolding 1 2 pool_row_def by (simp add: map2_map_map)
qed

lemma pool_rows_eq:
  assumes "length tes = length mks"
    and "\<forall>p \<in> set (zip tes mks). length (fst p) = length (snd p) \<and> (\<forall>tok \<in> set (fst p). length tok = H)"
  shows "map2 (map2 fdiv)
           (map (\<lambda>row. map (\<lambda>h. fsum (map (\<lambda>tok. tok ! h) row)) [0..<H])
              (map2 (map2 (map2 fmul)) tes (map (map (\<lambda>m. replicate H (round32 (of_int m)))) mks)))
           (map (map (\<lambda>x. fmaximum (fminimum x (round32 float32_max)) (round32 (1 / 10 ^ 9))))
              (map (\<lambda>row. map (\<lambda>h. fsum (map (\<lambda>tok. tok ! h) row)) [0..<H])
                 (map (map (\<lambda>m. replicate H (round32 (of_int m)))) mks)))
         = map2 (pool_row H) tes mks"
  using assms
proof (induction tes mks rule: list_induct2)
  case Nil
  then show ?case by simp
next
  case (Cons toks tes ms mks)
  have "length toks = length ms" "\<forall>tok \<in> set toks. length tok = H"
    using Cons.prems by auto
  from pool_row_eq[OF this] show ?case
    using Cons by simp
qed

lemma input_mask_expanded_eq:
  assumes "well_shaped2 am" "shape am = [B, T]" "shape te = [B, T, H]"
  shows "input_mask_expanded te am =
           Inr \<lparr>dtype = Float32, shape = [B, T, H],
                vals = map (map (\<lambda>m. replicate H (round32 (of_int m)))) (vals am)\<rparr>"
proof -
  have len: "length (vals am) = B" "\<forall>row \<in> set (vals am). length row = T"
    using assms(1,2) by (auto simp: well_shaped2_def)
  have "map (\<lambda>row. broadcast_axis T (map (broadcast_axis H) row)) (map (map (\<lambda>x. [x])) (vals am))
        = map (map (\<lambda>m. replicate H m)) (vals am)"
    using len(2) by (auto simp: broadcast_axis_same comp_def)
  then show ?thesis
    using len(1) assms(2,3)
    by (simp add: input_mask_expanded_def broadcast_to_def expand_dims_last_def cast_def
        broadcast_axis_same comp_def)
qed

lemma mean_pooling_rows:
  assumes "well_shaped3 te" "well_shaped2 am" "shape te = [B, T, H]" "shape am = [B, T]"
    and "dtype te = Float32"
  shows "mean_pooling \<lparr>last_hidden_state = te\<rparr> am =
           Inr \<lparr>dtype = Float32, shape = [B, H], vals = map2 (pool_row H) (vals te) (vals am)\<rparr>"
proof -
  have len: "length (vals te) = length (vals am)"
    using assms(1-4) by (auto simp: well_shaped2_def well_shaped3_def)
  have rows: "\<forall>p \<in> set (zip (vals te) (vals am)).
                length (fst p) = length (snd p) \<and> (\<forall>tok \<in> set (fst p). length tok = H)"
  proof
    fix p assume p: "p \<in> set (zip (vals te) (vals am))"
    obtain a b where ab: "p = (a, b)"
      by (cases p)
    have "a \<in> set (vals te)" "b \<in> set (vals am)"
      using p unfolding ab by (auto elim: in_set_zipE)
    then show "length (fst p) = length (snd p) \<and> (\<forall>tok \<in> set (fst p). length tok = H)"
      using assms(1-4) unfolding ab by (auto simp: well_shaped2_def well_shaped3_def)
  qed
  show ?thesis
    using pool_rows_eq[OF len rows] assms(3,5)
    by (simp add: mean_pooling_def input_mask_expanded_eq[OF assms(2,4,3)] multiply_def
        truediv_def reduce_sum_axis1_def clip_by_value_def)
qed

lemma mean_pooling_returns_float32:
  assumes "well_shaped2 am" "shape te = [B, T, H]" "shape am = [B, T]"
    and "mean_pooling \<lparr>last_hidden_state = te\<rparr> am = Inr out"
  shows "dtype te = Float32"
  using assms(4)
  by (simp add: mean_pooling_def input_mask_expanded_eq[OF assms(1,3,2)] multiply_def
      split: if_splits)

lemma mean_pooling_row:
  assumes "well_shaped3 te" "well_shaped2 am" "shape te = [B, T, H]" "shape am = [B, T]"
    and "mean_pooling \<lparr>last_hidden_state = te\<rparr> am = Inr out" "b < B"
  shows "vals out ! b = pool_row H (vals te ! b) (vals am ! b)"
proof -
  have "dtype te = Float32"
    by (rule mean_pooling_returns_float32[OF assms(2,3,4,5)])
  from mean_pooling_rows[OF assms(1-4) this] assms(5)
  have "vals out = map2 (pool_row H) (vals te) (vals am)"
    by auto
  moreover have "length (vals te) = B" "length (vals am) = B"
    using assms(1-4) by (auto simp: well_shaped2_def well_shaped3_def)
  ultimately show ?thesis
    using assms(6) by simp
qed

lemma row_shape:
  assumes "well_shaped3 te" "well_shaped2 am" "shape te = [B, T, H]" "shape am = [B, T]" "b < B"
  shows "length (vals te ! b) = T" "length (vals am ! b) = T" "T < 2 ^ 63"
    "\<forall>t < T. length (vals te ! b ! t) = H"
proof -
  have te: "length (vals te) = B" "T < 2 ^ 63"
    "\<forall>row \<in> set (vals te). length row = T \<and> (\<forall>tok \<in> set row. length tok = H)"
    using assms(1,3) by (auto simp: well_shaped3_def)
  have am: "length (vals am) = B" "\<forall>row \<in> set (vals am). length row = T"
    using assms(2,4) by (auto simp: well_shaped2_def)
  have row: "vals te ! b \<in> set (vals te)" "vals am ! b \<in> set (vals am)"
    using te(1) am(1) assms(5) by simp_all
  show "length (vals te ! b) = T" "length (vals am ! b) = T" "T < 2 ^ 63"
    using te row am by auto
  show "\<forall>t < T. length (vals te ! b ! t) = H"
  proof (intro allI impI)
    fix t assume "t < T"
    then have "vals te ! b ! t \<in> set (vals te ! b)"
      using te(3) row(1) by simp
    then show "length (vals te ! b ! t) = H"
      using te(3) row(1) by blast
  qed
qed


lemma clipped_mask_sum_row:
  assumes "well_shaped2 am" "shape am = [B, T]" "shape te = [B, T, H]" "b < B"
    and "input_mask_expanded te am = Inr ime"
  shows "vals (clip_by_value (reduce_sum_axis1 ime) lo hi) ! b
         = replicate H (fmaximum (fminimum (fsum (map (\<lambda>m. round32 (of_int m)) (vals am ! b))) (round32 hi)) (round32 lo))"
proof -
  have ime: "ime = \<lparr>dtype = Float32, shape = [B, T, H],
                vals = map (map (\<lambda>m. replicate H (round32 (of_int m)))) (vals am)\<rparr>"
    using assms(5) input_mask_expanded_eq[OF assms(1,2,3)] by simp
  have b: "b < length (vals am)"
    using assms(1,2,4) by (auto simp: well_shaped2_def)
  have "map (\<lambda>h. fmaximum (fminimum (fsum (map (\<lambda>m. replicate H (round32 (of_int m)) ! h)
                   (vals am ! b))) (round32 hi)) (round32 lo)) [0..<H]
         = replicate H (fmaximum (fminimum (fsum (map (\<lambda>m. round32 (of_int m)) (vals am ! b)))
             (round32 hi)) (round32 lo))"
    by (rule nth_equalityI) auto
  then show ?thesis
    using b by (simp add: ime clip_by_value_def reduce_sum_axis1_def comp_def)
qed


lemma map2_replicate_right:
  "map2 f xs (replicate (length xs) c) = map (\<lambda>x. f x c) xs"
  by (induction xs) simp_all

lemma normalize_emb_vals:
  "vals (normalize_emb e) = map (\<lambda>row. map (\<lambda>x. fdiv x (l2_norm row)) row) (vals e)"
proof -
  have "map2 (\<lambda>row n. map2 fdiv row (broadcast_axis (length row) n))
          xs (map (\<lambda>row. [l2_norm row]) xs)
        = map (\<lambda>row. map (\<lambda>x. fdiv x (l2_norm row)) row) xs" for xs
    by (induction xs) (simp_all add: map2_replicate_right)
  then show ?thesis
    by (simp add: normalize_emb_def linalg_normalize_def tf_norm_def Let_def)
qed

lemma normalize_emb_row:
  "b < length (vals e) \<Longrightarrow>
   vals (normalize_emb e) ! b = map (\<lambda>x. fdiv x (l2_norm (vals e ! b))) (vals e ! b)"
  by (simp add: normalize_emb_vals)

lemmas tensor_ops =
  mean_pooling_def input_mask_expanded_def broadcast_to_def expand_dims_last_def cast_def
  multiply_def truediv_def reduce_sum_axis1_def clip_by_value_def
  normalize_emb_def linalg_normalize_def tf_norm_def l2_norm_def fsum_def
  float32_max_def round32_0 round32_1 round32_numeral round32_float32_max_eval
  round32_floor_constant_eval

subsection \<open>Rows whose mask is all zeros\<close>

lemma clip_zero:
  "fmaximum (fminimum (Num 0) (round32 float32_max)) (round32 (1 / 10 ^ 9)) = round32 (1 / 10 ^ 9)"
  by (simp add: round32_float32_max_eval round32_floor_constant_eval float32_max_def)

lemma fdiv_zero_floor: "fdiv (Num 0) (round32 (1 / 10 ^ 9)) = Num 0"
  by (simp add: round32_floor_constant_eval round32_0)

lemma mask_sum_zero:
  "\<forall>m \<in> set ms. m = 0 \<Longrightarrow> fsum (map (\<lambda>m. round32 (of_int m)) ms) = Num 0"
  by (rule fsum_zeros) (auto simp: round32_0)

lemma all_masked_products:
  assumes "length toks = length ms" "\<forall>m \<in> set ms. m = 0"
    and "\<forall>p \<in> set (zip toks ms). snd p = 0 \<longrightarrow> is_finite (fst p ! h)"
  shows "\<forall>x \<in> set (map2 (\<lambda>tok m. fmul (tok ! h) (round32 (of_int m))) toks ms). x = Num 0"
  using assms
proof (induction toks ms rule: list_induct2)
  case Nil
  then show ?case by simp
next
  case (Cons tok toks m ms)
  then have "is_finite (tok ! h)" "m = 0"
    by simp_all
  then have "fmul (tok ! h) (round32 (of_int m)) = Num 0"
    by (cases "tok ! h") (simp_all add: round32_0)
  then show ?case
    using Cons by simp
qed

lemma pool_row_all_masked:
  assumes "length toks = length ms" "\<forall>m \<in> set ms. m = 0"
    and "\<forall>h < H. \<forall>p \<in> set (zip toks ms). snd p = 0 \<longrightarrow> is_finite (fst p ! h)"
  shows "pool_row H toks ms = replicate H (Num 0)"
proof -
  have "pool_row H toks ms = map (\<lambda>h. Num 0) [0..<H]"
    unfolding pool_row_def mask_sum_zero[OF assms(2)] clip_zero
  proof (intro map_cong refl)
    fix h assume "h \<in> set [0..<H]"
    then have "\<forall>p \<in> set (zip toks ms). snd p = 0 \<longrightarrow> is_finite (fst p ! h)"
      using assms(3) by simp
    from fsum_zeros[OF all_masked_products[OF assms(1,2) this]]
    show "fdiv (fsum (map2 (\<lambda>tok m. fmul (tok ! h) (round32 (of_int m))) toks ms))
            (round32 (1 / 10 ^ 9)) = Num 0"
      by (simp only: fdiv_zero_floor)
  qed
  then show ?thesis
    by (simp add: map_replicate_const)
qed

subsection \<open>Row-wise normalization\<close>

lemma fmul_self_finite: "is_finite (fmul x x) \<Longrightarrow> is_finite x"
  by (cases x) simp_all

lemma fsqrt_finite: "fsqrt s = Num r \<Longrightarrow> is_finite s"
  by (cases s) simp_all

lemma zero_norm_finite:
  assumes "l2_norm row = Num 0"
  shows "\<forall>x \<in> set row. is_finite x"
proof -
  have "is_finite (fsum (map (\<lambda>x. fmul x x) row))"
    using assms fsqrt_finite by (simp add: l2_norm_def)
  then obtain r where "fsum (map (\<lambda>x. fmul x x) row) = Num r"
    by (cases "fsum (map (\<lambda>x. fmul x x) row)") simp_all
  then have "\<forall>x \<in> set (map (\<lambda>x. fmul x x) row). is_finite x"
    by (rule fsum_finite)
  then show ?thesis
    by (auto dest: fmul_self_finite)
qed

lemma fdiv_by_zero: "is_finite x \<Longrightarrow> fdiv x (Num 0) = NaN \<or> fdiv x (Num 0) = PInf \<or> fdiv x (Num 0) = NInf"
  by (cases x) simp_all

lemma zero_row_norm:
  assumes "\<forall>x \<in> set row. x = Num 0"
  shows "l2_norm row = Num 0"
proof -
  have "\<forall>y \<in> set (map (\<lambda>x. fmul x x) row). y = Num 0"
    using assms by (auto simp: round32_0)
  then have "fsum (map (\<lambda>x. fmul x x) row) = Num 0"
    by (rule fsum_zeros)
  then show ?thesis
    by (simp add: l2_norm_def round32_0)
qed

subsection \<open>Masked sums and the mean of the unmasked vectors\<close>

lemma fadd_zero_right: "float32_value v \<Longrightarrow> fadd v (Num 0) = v"
  by (cases v) (simp_all add: is_binary32_def)

lemma float32_value_zero: "float32_value (Num 0)"
  by (simp add: is_binary32_def round32_0)

lemma clip_count:
  assumes "1 \<le> k" "k \<le> 2 ^ 24"
  shows "fmaximum (fminimum (Num (real k)) (round32 float32_max)) (round32 (1 / 10 ^ 9))
         = Num (real k)"
proof -
  have "real k \<le> 2 ^ 24"
    using assms(2) by (metis of_nat_le_iff of_nat_numeral of_nat_power)
  then have "real k \<le> float32_max"
    by (simp add: float32_max_def)
  moreover have "(9007199 / 2 ^ 53 :: real) \<le> real k"
    using assms(1) by (simp add: order_trans[of _ 1])
  ultimately show ?thesis
    unfolding round32_float32_max round32_floor_constant by (simp add: min_def max_def)
qed

lemma foldl_fadd_unmasked:
  assumes "length toks = length ms" "set ms \<subseteq> {0, 1}"
    and "\<forall>p \<in> set (zip toks ms). snd p = 0 \<longrightarrow> is_finite (fst p ! h)"
    and "\<forall>p \<in> set (zip toks ms). snd p = 1 \<longrightarrow> float32_value (fst p ! h)"
    and "float32_value a"
  shows "foldl fadd a (map2 (\<lambda>tok m. fmul (tok ! h) (round32 (of_int m))) toks ms)
         = foldl fadd a (map (\<lambda>v. v ! h) (unmasked toks ms))"
  using assms
proof (induction toks ms arbitrary: a rule: list_induct2)
  case Nil
  then show ?case by (simp add: unmasked_def)
next
  case (Cons tok toks m ms)
  have IH: "float32_value c \<Longrightarrow>
         foldl fadd c (map2 (\<lambda>tok m. fmul (tok ! h) (round32 (of_int m))) toks ms)
         = foldl fadd c (map (\<lambda>v. v ! h) (unmasked toks ms))" for c
    using Cons.IH[of c] Cons.prems by simp
  from Cons.prems have "m = 0 \<or> m = 1" by simp
  then show ?case
  proof
    assume m: "m = 0"
    then have "is_finite (tok ! h)" using Cons.prems by simp
    then obtain r where "tok ! h = Num r" by (cases "tok ! h") simp_all
    then have "fadd a (fmul (tok ! h) (round32 (of_int m))) = a"
      using m Cons.prems(4) by (simp add: round32_0 fadd_zero_right)
    then show ?thesis
      using IH[of a] m Cons.prems(4) by (simp add: unmasked_def)
  next
    assume m: "m = 1"
    then have "float32_value (tok ! h)" using Cons.prems by simp
    then have "fmul (tok ! h) (round32 (of_int m)) = tok ! h"
      using m by (simp add: fmul_one round32_1)
    then show ?thesis
      using IH[of "fadd a (tok ! h)"] m by (simp add: unmasked_def float32_value_fadd)
  qed
qed

lemma masked_sum_unmasked:
  assumes "length toks = length ms" "set ms \<subseteq> {0, 1}"
    and "\<forall>p \<in> set (zip toks ms). snd p = 0 \<longrightarrow> is_finite (fst p ! h)"
    and "\<forall>p \<in> set (zip toks ms). snd p = 1 \<longrightarrow> float32_value (fst p ! h)"
  shows "fsum (map2 (\<lambda>tok m. fmul (tok ! h) (round32 (of_int m))) toks ms)
         = fsum (map (\<lambda>v. v ! h) (unmasked toks ms))"
  unfolding fsum_def by (rule foldl_fadd_unmasked[OF assms float32_value_zero])

lemma length_unmasked:
  "length toks = length ms \<Longrightarrow> length (unmasked toks ms) = count_list ms 1"
  by (induction toks ms rule: list_induct2) (simp_all add: unmasked_def)

lemma unmasked_cong:
  assumes "length toks = length ms" "length toks' = length ms"
    and "\<forall>t < length ms. ms ! t = 1 \<longrightarrow> toks' ! t = toks ! t"
  shows "unmasked toks' ms = unmasked toks ms"
proof -
  have "length toks = length toks'" "length toks' = length ms"
    using assms(1,2) by simp_all
  then show ?thesis
    using assms(3)
  proof (induction toks toks' ms rule: list_induct3)
    case Nil
    then show ?case by simp
  next
    case (Cons x xs y ys m ms)
    have "\<forall>t < length ms. ms ! t = 1 \<longrightarrow> ys ! t = xs ! t"
    proof (intro allI impI)
      fix t assume "t < length ms" "ms ! t = 1"
      then show "ys ! t = xs ! t"
        using Cons.prems[rule_format, of "Suc t"] by simp
    qed
    then have "unmasked ys ms = unmasked xs ms"
      using Cons.IH by simp
    moreover have "m = 1 \<Longrightarrow> y = x"
      using Cons.prems[rule_format, of 0] by simp
    ultimately show ?case
      by (simp add: unmasked_def)
  qed
qed

lemma value_zip:
  assumes "length toks = length ms" "\<forall>t < length ms. length (toks ! t) = H"
    and "\<forall>t < length ms. ms ! t = c \<longrightarrow> (\<forall>x \<in> set (toks ! t). P x)"
  shows "\<forall>h < H. \<forall>p \<in> set (zip toks ms). snd p = c \<longrightarrow> P (fst p ! h)"
proof (intro allI impI ballI)
  fix h p assume h: "h < H" and p: "p \<in> set (zip toks ms)" and z: "snd p = c"
  from p obtain t where t: "t < length ms" "p = (toks ! t, ms ! t)"
    using assms(1) by (auto simp: set_zip)
  then have "toks ! t ! h \<in> set (toks ! t)"
    using assms(2) h by simp
  then show "P (fst p ! h)"
    using assms(3) t z by simp
qed

lemma pool_row_mean:
  assumes "length toks = length ms" "set ms \<subseteq> {0, 1}" "1 \<le> count_list ms 1"
    and "length ms \<le> 2 ^ 24"
    and "\<forall>h < H. \<forall>p \<in> set (zip toks ms). snd p = 0 \<longrightarrow> is_finite (fst p ! h)"
    and "\<forall>h < H. \<forall>p \<in> set (zip toks ms). snd p = 1 \<longrightarrow> float32_value (fst p ! h)"
  shows "pool_row H toks ms = float32_mean H (unmasked toks ms)"
proof -
  have "count_list ms 1 \<le> length ms"
    by (rule count_le_length)
  then have k: "count_list ms 1 \<le> 2 ^ 24"
    using assms(4) by simp
  show ?thesis
    unfolding pool_row_def float32_mean_def mask_sum_count[OF assms(2,4)]
      clip_count[OF assms(3) k] length_unmasked[OF assms(1)] round32_nat[OF k]
    using assms(5,6)
    by (intro map_cong refl) (simp add: masked_sum_unmasked[OF assms(1,2)])
qed

subsection \<open>Reordering the sequence axis\<close>





section \<open>Properties of the aggregator\<close>

text \<open>
  C1 (as amended). If the mask of row \<open>b\<close> has \<open>k \<ge> 1\<close> ones and zeros elsewhere, the
  sequence has at most \<open>2\<^sup>2\<^sup>4\<close> positions, and the embedding values at the masked positions
  of that row are finite, the pooled row is the float32 mean of exactly the \<open>k\<close> unmasked
  token vectors (their sum accumulated in float32, divided by \<open>k\<close>), and replacing the
  values at the masked positions by other finite values leaves the pooled row unchanged.
  It is the arithmetic mean only up to float32 rounding and overflow.
\<close>

theorem mean_pooling_masked_mean:
  assumes "well_shaped3 te" and "well_shaped3 te'" and "well_shaped2 am"
    and "shape te = [B, T, H]" and "shape te' = [B, T, H]" and "shape am = [B, T]"
    and "mean_pooling \<lparr>last_hidden_state = te\<rparr> am = Inr out"
    and "mean_pooling \<lparr>last_hidden_state = te'\<rparr> am = Inr out'"
    and "b < B" and "T \<le> 2 ^ 24"
    and "set (vals am ! b) \<subseteq> {0, 1}"
    and "count_list (vals am ! b) 1 = k" and "1 \<le> k"
    and "\<forall>t < T. vals am ! b ! t = 0 \<longrightarrow>
           (\<forall>x \<in> set (vals te ! b ! t). is_finite x) \<and>
           (\<forall>x \<in> set (vals te' ! b ! t). is_finite x)"
    and "\<forall>t < T. vals am ! b ! t = 1 \<longrightarrow>
           (\<forall>x \<in> set (vals te ! b ! t). float32_value x) \<and>
           vals te' ! b ! t = vals te ! b ! t"
  shows "length (unmasked (vals te ! b) (vals am ! b)) = k \<and>
         vals out ! b = float32_mean H (unmasked (vals te ! b) (vals am ! b)) \<and>
         vals out' ! b = vals out ! b"
proof -
  let ?toks = "vals te ! b" and ?toks' = "vals te' ! b" and ?ms = "vals am ! b"
  note r = row_shape[OF assms(1,3,4,6,9)] and r' = row_shape[OF assms(2,3,5,6,9)]
  have len: "length ?toks = length ?ms" "length ?toks' = length ?ms" "length ?ms \<le> 2 ^ 24"
    using r r' assms(10) by simp_all
  have fin: "\<forall>h < H. \<forall>p \<in> set (zip ?toks ?ms). snd p = 0 \<longrightarrow> is_finite (fst p ! h)"
    using assms(14) r by (intro value_zip) simp_all
  have fin': "\<forall>h < H. \<forall>p \<in> set (zip ?toks' ?ms). snd p = 0 \<longrightarrow> is_finite (fst p ! h)"
    using assms(14) r' r(2) by (intro value_zip) simp_all
  have val: "\<forall>h < H. \<forall>p \<in> set (zip ?toks ?ms). snd p = 1 \<longrightarrow> float32_value (fst p ! h)"
    using assms(15) r by (intro value_zip) simp_all
  have val': "\<forall>h < H. \<forall>p \<in> set (zip ?toks' ?ms). snd p = 1 \<longrightarrow> float32_value (fst p ! h)"
    using assms(15) r' r(2) by (intro value_zip) simp_all
  have k: "1 \<le> count_list ?ms 1"
    using assms(12,13) by simp
  have "vals out ! b = pool_row H ?toks ?ms"
    by (rule mean_pooling_row[OF assms(1,3,4,6,7,9)])
  then have out: "vals out ! b = float32_mean H (unmasked ?toks ?ms)"
    using pool_row_mean[OF len(1) assms(11) k len(3) fin val] by simp
  have "vals out' ! b = pool_row H ?toks' ?ms"
    by (rule mean_pooling_row[OF assms(2,3,5,6,8,9)])
  then have out': "vals out' ! b = float32_mean H (unmasked ?toks' ?ms)"
    using pool_row_mean[OF len(2) assms(11) k len(3) fin' val'] by simp
  have "unmasked ?toks' ?ms = unmasked ?toks ?ms"
    using assms(15) r(2) by (intro unmasked_cong[OF len(1,2)]) simp
  then show ?thesis
    using out out' length_unmasked[OF len(1)] assms(12) by simp
qed

theorem mean_pooling_masked_mean_witness:
  "mean_pooling
     \<lparr>last_hidden_state = \<lparr>dtype = Float32, shape = [1, 3, 2],
        vals = [[[Num 1, Num 3], [Num 5, Num 7], [Num 100, Num 200]]]\<rparr>\<rparr>
     \<lparr>dtype = Int32, shape = [1, 3], vals = [[1, 1, 0]]\<rparr>
   = Inr \<lparr>dtype = Float32, shape = [1, 2], vals = [[Num 3, Num 5]]\<rparr>
   \<and> mean_pooling
     \<lparr>last_hidden_state = \<lparr>dtype = Float32, shape = [1, 3, 2],
        vals = [[[Num 1, Num 3], [Num 5, Num 7], [Num 0, Num (- 4)]]]\<rparr>\<rparr>
     \<lparr>dtype = Int32, shape = [1, 3], vals = [[1, 1, 0]]\<rparr>
   = Inr \<lparr>dtype = Float32, shape = [1, 2], vals = [[Num 3, Num 5]]\<rparr>
   \<and> length (unmasked [[Num 1, Num 3], [Num 5, Num 7], [Num 100, Num 200]] [1, 1, 0]) = 2
   \<and> float32_mean 2 (unmasked [[Num 1, Num 3], [Num 5, Num 7], [Num 100, Num 200]] [1, 1, 0])
       = [Num 3, Num 5]"
proof -
  let ?te = "\<lparr>dtype = Float32, shape = [1, 3, 2],
        vals = [[[Num 1, Num 3], [Num 5, Num 7], [Num 100, Num 200]]]\<rparr>"
  let ?te' = "\<lparr>dtype = Float32, shape = [1, 3, 2],
        vals = [[[Num 1, Num 3], [Num 5, Num 7], [Num 0, Num (- 4)]]]\<rparr>"
  let ?am = "\<lparr>dtype = Int32, shape = [1, 3], vals = [[1, 1, 0 :: int]]\<rparr>"
  let ?out = "\<lparr>dtype = Float32, shape = [1, 2], vals = [[Num 3, Num 5]]\<rparr>"
  have p: "mean_pooling \<lparr>last_hidden_state = ?te\<rparr> ?am = Inr ?out"
    by (simp add: tensor_ops upt_rec)
  have p': "mean_pooling \<lparr>last_hidden_state = ?te'\<rparr> ?am = Inr ?out"
    by (simp add: tensor_ops upt_rec)
  have w: "well_shaped3 ?te" "well_shaped3 ?te'" "well_shaped2 ?am"
    by (simp_all add: well_shaped3_def well_shaped2_def)
  have fin: "\<forall>t < 3. vals ?am ! 0 ! t = 0 \<longrightarrow>
           (\<forall>x \<in> set (vals ?te ! 0 ! t). is_finite x) \<and>
           (\<forall>x \<in> set (vals ?te' ! 0 ! t). is_finite x)"
    by (simp add: numeral_3_eq_3 less_Suc_eq)
  have same: "\<forall>t < 3. vals ?am ! 0 ! t = 1 \<longrightarrow>
           (\<forall>x \<in> set (vals ?te ! 0 ! t). float32_value x) \<and>
           vals ?te' ! 0 ! t = vals ?te ! 0 ! t"
    by (simp add: numeral_3_eq_3 less_Suc_eq is_binary32_def round32_1 round32_numeral)
  have "length (unmasked (vals ?te ! 0) (vals ?am ! 0)) = 2 \<and>
         vals ?out ! 0 = float32_mean 2 (unmasked (vals ?te ! 0) (vals ?am ! 0)) \<and>
         vals ?out ! 0 = vals ?out ! 0"
    by (rule mean_pooling_masked_mean[where B = 1 and T = 3 and H = 2 and b = 0 and k = 2,
          OF w _ _ _ p p' _ _ _ _ _ fin same]) simp_all
  then show ?thesis
    using p p' by simp
qed

theorem mean_pooling_masked_mean_counterexample:
  "mean_pooling
     \<lparr>last_hidden_state = \<lparr>dtype = Float32, shape = [1, 2, 1], vals = [[[Num 1], [PInf]]]\<rparr>\<rparr>
     \<lparr>dtype = Int32, shape = [1, 2], vals = [[1, 0]]\<rparr>
   = Inr \<lparr>dtype = Float32, shape = [1, 1], vals = [[NaN]]\<rparr>
   \<and> mean_pooling
     \<lparr>last_hidden_state = \<lparr>dtype = Float32, shape = [1, 2, 1], vals = [[[Num 1], [Num 0]]]\<rparr>\<rparr>
     \<lparr>dtype = Int32, shape = [1, 2], vals = [[1, 0]]\<rparr>
   = Inr \<lparr>dtype = Float32, shape = [1, 1], vals = [[Num 1]]\<rparr>
   \<and> is_binary32 (2 ^ 127)
   \<and> mean_pooling
     \<lparr>last_hidden_state = \<lparr>dtype = Float32, shape = [1, 2, 1],
        vals = [[[Num (2 ^ 127)], [Num (2 ^ 127)]]]\<rparr>\<rparr>
     \<lparr>dtype = Int32, shape = [1, 2], vals = [[1, 1]]\<rparr>
   = Inr \<lparr>dtype = Float32, shape = [1, 1], vals = [[PInf]]\<rparr>
   \<and> arithmetic_mean 1 [[2 ^ 127], [2 ^ 127]] = [2 ^ 127]"
proof -
  have r127: "round32 170141183460469231731687303715884105728
              = Num 170141183460469231731687303715884105728"
    using round32_exact[of "2 ^ 127" 1 127] by (simp add: float32_max_def)
  have r128: "round32 340282366920938463463374607431768211456 = PInf"
    using round32_overflow[of "2 ^ 128"] by simp
  show ?thesis
    by (simp add: tensor_ops arithmetic_mean_def is_binary32_def upt_rec r127 r128)
qed

text \<open>
  C2 (as amended). If the mask of row \<open>b\<close> is all zeros and the embedding values of that row
  are finite, the pooled row is exactly the zero vector: the clamp makes every divisor of
  that row \<open>1e-9\<close> (as a float32), so the pooling step divides \<open>0\<close> by \<open>1e-9\<close> and produces no
  \<open>NaN\<close> or infinity.
\<close>

theorem mean_pooling_all_masked_row:
  assumes "well_shaped3 te" and "well_shaped2 am"
    and "shape te = [B, T, H]" and "shape am = [B, T]"
    and "mean_pooling \<lparr>last_hidden_state = te\<rparr> am = Inr out"
    and "b < B"
    and "\<forall>m \<in> set (vals am ! b). m = 0"
    and "\<forall>tok \<in> set (vals te ! b). \<forall>x \<in> set tok. is_finite x"
  shows "vals out ! b = replicate H (Num 0) \<and>
         (\<exists>ime. input_mask_expanded te am = Inr ime \<and>
            vals (clip_by_value (reduce_sum_axis1 ime) (1 / 10 ^ 9) float32_max) ! b
              = replicate H (round32 (1 / 10 ^ 9))) \<and>
         round32 (1 / 10 ^ 9) = Num (9007199 / 2 ^ 53)"
proof -
  let ?toks = "vals te ! b" and ?ms = "vals am ! b"
  note r = row_shape[OF assms(1,2,3,4,6)]
  have len: "length ?toks = length ?ms"
    using r by simp
  have "\<forall>t < length ?ms. ?ms ! t = 0 \<longrightarrow> (\<forall>x \<in> set (?toks ! t). is_finite x)"
    using assms(8) r(1,2) nth_mem[of _ ?toks] by auto
  then have fin: "\<forall>h < H. \<forall>p \<in> set (zip ?toks ?ms). snd p = 0 \<longrightarrow> is_finite (fst p ! h)"
    using r by (intro value_zip) simp_all
  have "vals out ! b = pool_row H ?toks ?ms"
    by (rule mean_pooling_row[OF assms(1-6)])
  then have out: "vals out ! b = replicate H (Num 0)"
    using pool_row_all_masked[OF len assms(7) fin] by simp
  obtain ime where ime: "input_mask_expanded te am = Inr ime"
    using input_mask_expanded_eq[OF assms(2,4,3)] by simp
  have "vals (clip_by_value (reduce_sum_axis1 ime) (1 / 10 ^ 9) float32_max) ! b
        = replicate H (round32 (1 / 10 ^ 9))"
    unfolding clipped_mask_sum_row[OF assms(2,4,3,6) ime] mask_sum_zero[OF assms(7)] clip_zero
    by simp
  then show ?thesis
    using out ime round32_floor_constant by simp
qed

theorem mean_pooling_all_masked_row_witness:
  "mean_pooling
     \<lparr>last_hidden_state = \<lparr>dtype = Float32, shape = [2, 2, 2],
        vals = [[[Num 7, Num 8], [Num 5, Num (- 6)]], [[Num 3, Num 4], [Num 9, Num 9]]]\<rparr>\<rparr>
     \<lparr>dtype = Int32, shape = [2, 2], vals = [[0, 0], [1, 0]]\<rparr>
   = Inr \<lparr>dtype = Float32, shape = [2, 2], vals = [[Num 0, Num 0], [Num 3, Num 4]]\<rparr>
   \<and> vals \<lparr>dtype = Float32, shape = [2, 2], vals = [[Num 0, Num 0], [Num 3, Num 4 :: float32]]\<rparr> ! 0
     = replicate 2 (Num 0)"
proof -
  let ?te = "\<lparr>dtype = Float32, shape = [2, 2, 2],
        vals = [[[Num 7, Num 8], [Num 5, Num (- 6)]], [[Num 3, Num 4], [Num 9, Num 9]]]\<rparr>"
  let ?am = "\<lparr>dtype = Int32, shape = [2, 2], vals = [[0, 0], [1, 0 :: int]]\<rparr>"
  let ?out = "\<lparr>dtype = Float32, shape = [2, 2], vals = [[Num 0, Num 0], [Num 3, Num 4]]\<rparr>"
  have p: "mean_pooling \<lparr>last_hidden_state = ?te\<rparr> ?am = Inr ?out"
    by (simp add: tensor_ops upt_rec)
  have w: "well_shaped3 ?te" "well_shaped2 ?am"
    by (simp_all add: well_shaped3_def well_shaped2_def)
  have "vals ?out ! 0 = replicate 2 (Num 0) \<and>
         (\<exists>ime. input_mask_expanded ?te ?am = Inr ime \<and>
            vals (clip_by_value (reduce_sum_axis1 ime) (1 / 10 ^ 9) float32_max) ! 0
              = replicate 2 (round32 (1 / 10 ^ 9))) \<and>
         round32 (1 / 10 ^ 9) = Num (9007199 / 2 ^ 53)"
    by (rule mean_pooling_all_masked_row[where B = 2 and T = 2 and H = 2 and b = 0, OF w _ _ p])
       simp_all
  then show ?thesis
    using p by simp
qed

theorem mean_pooling_all_masked_row_counterexample:
  "mean_pooling
     \<lparr>last_hidden_state = \<lparr>dtype = Float32, shape = [1, 1, 2], vals = [[[PInf, Num 1]]]\<rparr>\<rparr>
     \<lparr>dtype = Int32, shape = [1, 1], vals = [[0]]\<rparr>
   = Inr \<lparr>dtype = Float32, shape = [1, 2], vals = [[NaN, Num 0]]\<rparr>"
  by (simp add: tensor_ops upt_rec)

text \<open>
  C3 (as amended). \<^verbatim>\<open>normalize\<close> raises no error on a row whose L2 norm is zero (it has no
  error result at all), but it has no zero-safety policy: \<^verbatim>\<open>tf.linalg.normalize\<close> divides by
  the bare norm, so no component of the result is finite. A row of zeros has norm zero
  and becomes all \<open>NaN\<close> (\<open>0 / 0\<close>); a nonzero row whose squares underflow to a zero norm
  becomes infinite at its nonzero components.
\<close>

theorem normalize_zero_norm_row:
  assumes "b < length (vals e)"
  shows "(l2_norm (vals e ! b) = Num 0 \<longrightarrow>
            (\<forall>y \<in> set (vals (normalize_emb e) ! b). y = NaN \<or> y = PInf \<or> y = NInf)) \<and>
         ((\<forall>x \<in> set (vals e ! b). x = Num 0) \<longrightarrow>
            l2_norm (vals e ! b) = Num 0 \<and>
            vals (normalize_emb e) ! b = replicate (length (vals e ! b)) NaN)"
proof (intro conjI impI)
  assume n: "l2_norm (vals e ! b) = Num 0"
  then have "\<forall>x \<in> set (vals e ! b). is_finite x"
    by (rule zero_norm_finite)
  then show "\<forall>y \<in> set (vals (normalize_emb e) ! b). y = NaN \<or> y = PInf \<or> y = NInf"
    using assms n by (auto simp: normalize_emb_row dest: fdiv_by_zero)
next
  assume z: "\<forall>x \<in> set (vals e ! b). x = Num 0"
  then show n: "l2_norm (vals e ! b) = Num 0"
    by (rule zero_row_norm)
  have "map (\<lambda>x. fdiv x (Num 0)) (vals e ! b) = replicate (length (vals e ! b)) NaN"
    using z by (intro replicate_eqI) auto
  then show "vals (normalize_emb e) ! b = replicate (length (vals e ! b)) NaN"
    using assms n by (simp add: normalize_emb_row)
qed

theorem normalize_zero_norm_row_witness:
  "l2_norm [Num 0, Num 0, Num 0] = Num 0 \<and>
   vals (normalize_emb \<lparr>dtype = Float32, shape = [2, 3],
           vals = [[Num 3, Num 0, Num 4], [Num 0, Num 0, Num 0]]\<rparr>) ! 1
     = [NaN, NaN, NaN] \<and>
   l2_norm [Num (1 / 2 ^ 100), Num 0] = Num 0 \<and>
   vals (normalize_emb \<lparr>dtype = Float32, shape = [1, 2],
           vals = [[Num (1 / 2 ^ 100), Num 0]]\<rparr>) ! 0
     = [PInf, NaN]"
proof -
  let ?e = "\<lparr>dtype = Float32, shape = [2, 3],
           vals = [[Num 3, Num 0, Num 4], [Num 0, Num 0, Num 0 :: float32]]\<rparr>"
  have "(\<forall>x \<in> set (vals ?e ! 1). x = Num 0) \<longrightarrow>
            l2_norm (vals ?e ! 1) = Num 0 \<and>
            vals (normalize_emb ?e) ! 1 = replicate (length (vals ?e ! 1)) NaN"
    using normalize_zero_norm_row[of 1 ?e] by simp
  then have zero: "l2_norm [Num 0, Num 0, Num 0] = Num 0 \<and>
      vals (normalize_emb ?e) ! 1 = [NaN, NaN, NaN]"
    by (simp add: numeral_3_eq_3)
  have "round32 (1 / 2 ^ 200) =
     (let r = of_int (round_half_even ((1 / 2 ^ 200) / 2 powi (- 149))) * 2 powi (- 149)
      in if float32_max < r then PInf else if r < - float32_max then NInf else Num r)"
    by (rule round32_eval) (simp_all add: power_int_minus field_simps)
  moreover have "round_half_even ((1 / 2 ^ 200) / 2 powi (- 149)) = 0"
    by (simp add: round_half_even_def Let_def power_int_minus field_simps)
  ultimately have "round32 (1 / 2 ^ 200) = Num 0"
    by (simp add: float32_max_def)
  then have "l2_norm [Num (1 / 2 ^ 100), Num 0] = Num 0 \<and>
      vals (normalize_emb \<lparr>dtype = Float32, shape = [1, 2],
           vals = [[Num (1 / 2 ^ 100), Num 0]]\<rparr>) ! 0 = [PInf, NaN]"
    by (simp add: tensor_ops power_int_minus field_simps)
  then show ?thesis
    using zero by simp
qed

theorem normalize_zero_norm_row_counterexample:
  "l2_norm [Num 0, Num 0] = Num 0 \<and>
   normalize_emb \<lparr>dtype = Float32, shape = [1, 2], vals = [[Num 0, Num 0]]\<rparr>
     = \<lparr>dtype = Float32, shape = [1, 2], vals = [[NaN, NaN]]\<rparr>"
  by (simp add: tensor_ops)

text \<open>
  C4 (as amended). The attention mask is broadcast along the hidden dimension to shape
  \<open>(B, T, H)\<close> and cast to \<^verbatim>\<open>float32\<close>, whatever the floating-point type of the token
  embeddings. For \<^verbatim>\<open>float32\<close> token embeddings this is their own type and the pooled output is
  \<^verbatim>\<open>float32\<close> of shape \<open>(B, H)\<close>; for any other type the product of the embeddings with the
  mask raises and there is no pooled output.
\<close>

theorem mask_cast_to_float32:
  assumes "well_shaped2 am" and "shape te = [B, T, H]" and "shape am = [B, T]"
  shows "\<exists>ime. input_mask_expanded te am = Inr ime \<and> shape ime = [B, T, H] \<and>
           dtype ime = Float32 \<and>
           (if dtype te = Float32
            then \<exists>out. mean_pooling \<lparr>last_hidden_state = te\<rparr> am = Inr out \<and>
                   dtype out = Float32 \<and> shape out = [B, H]
            else mean_pooling \<lparr>last_hidden_state = te\<rparr> am = Inl InvalidArgumentError)"
  using assms(2)
  by (simp add: mean_pooling_def input_mask_expanded_eq[OF assms(1,3,2)] multiply_def truediv_def
      reduce_sum_axis1_def clip_by_value_def)

theorem mask_cast_to_float32_witness:
  "input_mask_expanded \<lparr>dtype = Float32, shape = [1, 2, 2], vals = [[[Num 2, Num 3], [Num 4, Num 5]]]\<rparr>
      \<lparr>dtype = Int32, shape = [1, 2], vals = [[1, 0]]\<rparr>
   = Inr \<lparr>dtype = Float32, shape = [1, 2, 2], vals = [[[Num 1, Num 1], [Num 0, Num 0]]]\<rparr>
   \<and> mean_pooling
      \<lparr>last_hidden_state = \<lparr>dtype = Float32, shape = [1, 2, 2], vals = [[[Num 2, Num 3], [Num 4, Num 5]]]\<rparr>\<rparr>
      \<lparr>dtype = Int32, shape = [1, 2], vals = [[1, 0]]\<rparr>
   = Inr \<lparr>dtype = Float32, shape = [1, 2], vals = [[Num 2, Num 3]]\<rparr>"
proof -
  let ?te = "\<lparr>dtype = Float32, shape = [1, 2, 2], vals = [[[Num 2, Num 3], [Num 4, Num 5]]]\<rparr>"
  let ?am = "\<lparr>dtype = Int32, shape = [1, 2], vals = [[1, 0 :: int]]\<rparr>"
  have w: "well_shaped2 ?am"
    by (simp add: well_shaped2_def)
  have "\<exists>ime. input_mask_expanded ?te ?am = Inr ime \<and> shape ime = [1, 2, 2] \<and>
           dtype ime = Float32 \<and>
           (if dtype ?te = Float32
            then \<exists>out. mean_pooling \<lparr>last_hidden_state = ?te\<rparr> ?am = Inr out \<and>
                   dtype out = Float32 \<and> shape out = [1, 2]
            else mean_pooling \<lparr>last_hidden_state = ?te\<rparr> ?am = Inl InvalidArgumentError)"
    by (rule mask_cast_to_float32[OF w]) simp_all
  then show ?thesis
    by (simp add: tensor_ops upt_rec eval_nat_numeral)
qed

theorem mask_cast_to_float32_counterexample:
  "input_mask_expanded \<lparr>dtype = Float64, shape = [1, 1, 2], vals = [[[Num 2, Num 3]]]\<rparr>
      \<lparr>dtype = Int32, shape = [1, 1], vals = [[1]]\<rparr>
   = Inr \<lparr>dtype = Float32, shape = [1, 1, 2], vals = [[[Num 1, Num 1]]]\<rparr>
   \<and> mean_pooling
      \<lparr>last_hidden_state = \<lparr>dtype = Float64, shape = [1, 1, 2], vals = [[[Num 2, Num 3]]]\<rparr>\<rparr>
      \<lparr>dtype = Int32, shape = [1, 1], vals = [[1]]\<rparr>
   = Inl InvalidArgumentError"
  by (simp add: tensor_ops eval_nat_numeral)

text \<open>
  C6. With \<^verbatim>\<open>normalize=False\<close>, \<^verbatim>\<open>call\<close> returns the result of \<^verbatim>\<open>mean_pooling\<close> on the model's
  output and the inputs' attention mask as it is: no normalization and no other
  transformation follows the pooling.
\<close>

theorem call_unnormalized_is_mean_pooling:
  "model inputs = Inr output \<Longrightarrow>
   call model inputs False = mean_pooling output (attention_mask inputs)"
  by (simp add: call_def split: sum.splits)

theorem call_unnormalized_is_mean_pooling_witness:
  "call (\<lambda>_. Inr \<lparr>last_hidden_state =
            \<lparr>dtype = Float32, shape = [1, 2, 1], vals = [[[Num 2], [Num 4]]]\<rparr>\<rparr>)
        \<lparr>input_ids = \<lparr>dtype = Int32, shape = [1, 2], vals = [[101, 102]]\<rparr>,
         attention_mask = \<lparr>dtype = Int32, shape = [1, 2], vals = [[1, 1]]\<rparr>\<rparr> False
   = Inr \<lparr>dtype = Float32, shape = [1, 1], vals = [[Num 3]]\<rparr>"
  using call_unnormalized_is_mean_pooling
    [of "\<lambda>_. Inr \<lparr>last_hidden_state =
            \<lparr>dtype = Float32, shape = [1, 2, 1], vals = [[[Num 2], [Num 4]]]\<rparr>\<rparr>"
        "\<lparr>input_ids = \<lparr>dtype = Int32, shape = [1, 2], vals = [[101, 102]]\<rparr>,
         attention_mask = \<lparr>dtype = Int32, shape = [1, 2], vals = [[1, 1]]\<rparr>\<rparr>"]
  by (simp add: tensor_ops upt_rec)

text \<open>
  C7. The end-to-end scenario: token embeddings of shape \<open>(1, 3, 4)\<close> with token vectors
  \<open>[1,1,1,1]\<close>, \<open>[2,2,2,2]\<close>, \<open>[9,9,9,9]\<close> and mask \<open>[1,1,0]\<close> pool to \<open>[1.5,1.5,1.5,1.5]\<close>, and
  the normalized result is \<open>[0.5,0.5,0.5,0.5]\<close>.
\<close>

theorem end_to_end_scenario:
  "mean_pooling
     \<lparr>last_hidden_state = \<lparr>dtype = Float32, shape = [1, 3, 4],
        vals = [[[Num 1, Num 1, Num 1, Num 1], [Num 2, Num 2, Num 2, Num 2],
                 [Num 9, Num 9, Num 9, Num 9]]]\<rparr>\<rparr>
     \<lparr>dtype = Int32, shape = [1, 3], vals = [[1, 1, 0]]\<rparr>
   = Inr \<lparr>dtype = Float32, shape = [1, 4],
          vals = [[Num (3 / 2), Num (3 / 2), Num (3 / 2), Num (3 / 2)]]\<rparr>
   \<and> normalize_emb \<lparr>dtype = Float32, shape = [1, 4],
          vals = [[Num (3 / 2), Num (3 / 2), Num (3 / 2), Num (3 / 2)]]\<rparr>
   = \<lparr>dtype = Float32, shape = [1, 4],
      vals = [[Num (1 / 2), Num (1 / 2), Num (1 / 2), Num (1 / 2)]]\<rparr>
   \<and> call (\<lambda>_. Inr \<lparr>last_hidden_state = \<lparr>dtype = Float32, shape = [1, 3, 4],
        vals = [[[Num 1, Num 1, Num 1, Num 1], [Num 2, Num 2, Num 2, Num 2],
                 [Num 9, Num 9, Num 9, Num 9]]]\<rparr>\<rparr>)
        \<lparr>input_ids = \<lparr>dtype = Int32, shape = [1, 3], vals = [[101, 2023, 0]]\<rparr>,
         attention_mask = \<lparr>dtype = Int32, shape = [1, 3], vals = [[1, 1, 0]]\<rparr>\<rparr> True
   = Inr \<lparr>dtype = Float32, shape = [1, 4],
      vals = [[Num (1 / 2), Num (1 / 2), Num (1 / 2), Num (1 / 2)]]\<rparr>"
proof -
  have r: "round32 (3 / 2) = Num (3 / 2)" "round32 (9 / 4) = Num (9 / 4)"
    "round32 (9 / 2) = Num (9 / 2)" "round32 (27 / 4) = Num (27 / 4)"
    "round32 (1 / 2) = Num (1 / 2)"
    using round32_dyadic[of 3 1] round32_dyadic[of 9 2] round32_dyadic[of 9 1]
      round32_dyadic[of 27 2] round32_dyadic[of 1 1]
    by simp_all
  show ?thesis
    by (simp add: call_def tensor_ops upt_rec r)
qed




end
